theory Spec2Isabelle
  imports Complex_Main "HOL-Library.AList"
begin

section \<open>Blanket v6.4: a shallow embedding of blanket\_system.py\<close>

text \<open>
  The program talks to the network, the clock and the file system. The model keeps
  the file system (the image directory and the event-log file) as explicit state,
  and threads an opaque world \<open>'w\<close> through every network request and clock reading,
  so that two requests for the same URL may answer differently. Library routines
  (requests, BeautifulSoup, urljoin, PIL, hashlib, int, inspect) are fields of an
  environment record; every theorem holds for every environment.
\<close>

subsection \<open>Values\<close>

type_synonym bytes = "char list"

datatype error = RequestError | ValueError | KeyError | TypeError | AttributeError

text \<open>What \<open>json.load\<close> returns and \<open>json.dump\<close> accepts. A dict is an association list.\<close>

datatype json =
    JNull
  | JBool bool
  | JInt int
  | JFloat real
  | JStr string
  | JArr "json list"
  | JObj "(string \<times> json) list"

text \<open>The response of \<open>requests.head\<close>: only its headers are read.\<close>

record response =
  headers :: "string \<Rightarrow> string option"

text \<open>
  The event-log file: absent, present with contents \<open>json.load\<close> rejects, or present
  with a JSON document.
\<close>

datatype memory_file = Absent | Garbage | Document json

subsection \<open>The environment\<close>

record 'w env =
  requests_head :: "'w \<Rightarrow> string \<Rightarrow> (error + response) \<times> 'w"
  requests_get_text :: "'w \<Rightarrow> string option \<Rightarrow> (error + string) \<times> 'w"
  requests_get_content :: "'w \<Rightarrow> string \<Rightarrow> (error + bytes) \<times> 'w"
  find_all_img :: "string \<Rightarrow> string option list"
  urljoin :: "string option \<Rightarrow> string \<Rightarrow> error + string"
  image_verify :: "bytes \<Rightarrow> bool"
  md5_hexdigest :: "bytes \<Rightarrow> string"
  image_resize :: "bytes \<Rightarrow> bool"
  int_of_str :: "string \<Rightarrow> int option"
  getsource_lines :: "int option"
  time_time :: "'w \<Rightarrow> real \<times> 'w"

text \<open>
  \<^item> \<open>requests_head w url\<close>: \<open>requests.head(url, timeout=5, allow_redirects=True)\<close>;
    \<open>Inl\<close> when it raises.
  \<^item> \<open>requests_get_text w url\<close>: \<open>requests.get(url, headers=..., timeout=10).text\<close>;
    the URL is \<open>None\<close> when \<open>execute\<close> is called without a payload.
  \<^item> \<open>requests_get_content w url\<close>: \<open>requests.get(url, timeout=5).content\<close>.
  \<^item> \<open>find_all_img html\<close>: the \<open>img\<close> elements of the parsed page in document order,
    each as the value of \<open>img.get("src")\<close>.
  \<^item> \<open>urljoin base src\<close>: \<open>urllib.parse.urljoin\<close>, which raises \<open>ValueError\<close> on a
    reference it cannot split.
  \<^item> \<open>image_verify data\<close>: \<open>Image.open(io.BytesIO(data)).verify()\<close> does not raise.
  \<^item> \<open>image_resize data\<close>: opening, resizing to 64 by 64 and converting a stored file
    with these bytes does not raise.
  \<^item> \<open>int_of_str s\<close>: \<open>int(s)\<close>, \<open>None\<close> when it raises \<open>ValueError\<close>.
  \<^item> \<open>getsource_lines\<close>: the line count \<open>inspect.getsource\<close> gives, \<open>None\<close> when it
    raises.
  \<^item> \<open>time_time w\<close>: \<open>time.time()\<close>.
\<close>

subsection \<open>Strings\<close>

text \<open>\<open>str.lower\<close> on the 8-bit characters a header value consists of.\<close>

definition lower_char :: "char \<Rightarrow> char" where
  "lower_char c =
     (let n = of_char c :: nat
      in if (65 \<le> n \<and> n \<le> 90) \<or> (192 \<le> n \<and> n \<le> 222 \<and> n \<noteq> 215)
         then char_of (n + 32) else c)"

definition lower :: "string \<Rightarrow> string" where
  "lower s = map lower_char s"

text \<open>\<open>sub in s\<close> on strings: \<open>sub\<close> occurs in \<open>s\<close> as a contiguous run.\<close>

fun starts_with :: "string \<Rightarrow> string \<Rightarrow> bool" where
  "starts_with s [] = True"
| "starts_with [] (c # sub) = False"
| "starts_with (d # s) (c # sub) = (d = c \<and> starts_with s sub)"

fun str_in :: "string \<Rightarrow> string \<Rightarrow> bool" where
  "str_in sub [] = (sub = [])"
| "str_in sub (d # s) = (starts_with (d # s) sub \<or> str_in sub s)"

subsection \<open>OnlineImageChecker\<close>

definition validate :: "'w env \<Rightarrow> 'w \<Rightarrow> string \<Rightarrow> bool \<times> 'w" where
  "validate env w url =
     (case requests_head env w url of
        (Inl e, w') \<Rightarrow> (False, w')
      | (Inr r, w') \<Rightarrow>
          (let ctype = (case headers r ''Content-Type'' of None \<Rightarrow> [] | Some v \<Rightarrow> v)
           in case (case headers r ''Content-Length'' of
                      None \<Rightarrow> Some 0
                    | Some v \<Rightarrow> int_of_str env v) of
                None \<Rightarrow> (False, w')
              | Some size_v \<Rightarrow>
                  if \<not> str_in ''image'' (lower ctype) then (False, w')
                  else if size_v > 15000000 then (False, w')
                  else (True, w')))"

subsection \<open>The file system and the world\<close>

text \<open>
  \<open>images\<close> is the directory \<open>DATA_DIR\<close>: one entry per file, its name and its bytes,
  in the order \<open>os.listdir\<close> gives them. \<open>memory\<close> is \<open>MEMORY_FILE\<close>. Opening a
  file of \<open>DATA_DIR\<close> for writing and writing \<open>MEMORY_FILE\<close> are taken to succeed.
\<close>

record 'w system =
  images :: "(string \<times> bytes) list"
  memory :: memory_file
  world :: 'w

text \<open>\<open>open(path, "wb")\<close> followed by \<open>f.write(data)\<close>: creates or overwrites.\<close>

definition write_file :: "(string \<times> bytes) list \<Rightarrow> string \<Rightarrow> bytes \<Rightarrow> (string \<times> bytes) list" where
  "write_file dir name data = AList.update name data dir"

text \<open>\<open>str(n)\<close> for an integer, as the f-strings format it.\<close>

definition digit_char :: "nat \<Rightarrow> char" where
  "digit_char d = char_of (48 + d)"

fun str_nat :: "nat \<Rightarrow> string" where
  "str_nat n = (if n < 10 then [digit_char n] else str_nat (n div 10) @ [digit_char (n mod 10)])"

declare str_nat.simps [simp del]

definition str_int :: "int \<Rightarrow> string" where
  "str_int i = (if i < 0 then CHR ''-'' # str_nat (nat (- i)) else str_nat (nat i))"

subsection \<open>ConsciousMemory\<close>

definition empty_events :: json where
  "empty_events = JObj [(''events'', JArr [])]"

definition memory_init :: "memory_file \<Rightarrow> memory_file" where
  "memory_init f = (if f = Absent then Document empty_events else f)"

fun read_memory :: "memory_file \<Rightarrow> json" where
  "read_memory Absent = empty_events"
| "read_memory Garbage = empty_events"
| "read_memory (Document data) = data"

definition write_memory :: "json \<Rightarrow> memory_file" where
  "write_memory data = Document data"

text \<open>
  \<open>data["events"]\<close> raises \<open>TypeError\<close> unless \<open>data\<close> is a dict and \<open>KeyError\<close> when
  the key is missing; \<open>.append\<close> raises \<open>AttributeError\<close> unless the value is a list.
  All three are looked up before \<open>time.time()\<close> is called and before anything is
  written.
\<close>

definition record_event :: "'w env \<Rightarrow> 'w system \<Rightarrow> string \<Rightarrow> json \<Rightarrow> (error + unit) \<times> 'w system" where
  "record_event env s perception analysis =
     (case read_memory (memory s) of
        JObj data \<Rightarrow>
          (case map_of data ''events'' of
             None \<Rightarrow> (Inl KeyError, s)
           | Some (JArr events) \<Rightarrow>
               (case time_time env (world s) of
                  (t, w') \<Rightarrow>
                    (Inr (),
                     s\<lparr>memory := write_memory (JObj (AList.update ''events''
                          (JArr (events @
                             [JObj [(''time'', JFloat t),
                                    (''perception'', JStr perception),
                                    (''analysis'', analysis)]])) data)),
                       world := w'\<rparr>))
           | Some _ \<Rightarrow> (Inl AttributeError, s))
      | _ \<Rightarrow> (Inl TypeError, s))"

subsection \<open>SelfWhyEngine and CodeIntrospection\<close>

definition analyze :: "string \<Rightarrow> string \<Rightarrow> string \<Rightarrow> json" where
  "analyze action intent module_name =
     JObj [(''intent'', JStr intent),
           (''executor'', JStr module_name),
           (''why_action'',
              JStr (''Action executed to satisfy '' @ [CHR 0x27] @ intent @ [CHR 0x27] @ ''.'')),
           (''why_code'', JStr ''Modular separation prevents cascading failures.''),
           (''meta'', JStr ''System prioritizes traceability over autonomy illusion.'')]"

definition explain :: "'w env \<Rightarrow> json" where
  "explain env =
     JObj [(''module'', JStr ''BlanketCore''),
           (''lines'', (case getsource_lines env of Some n \<Rightarrow> JInt n | None \<Rightarrow> JStr ''Dynamic'')),
           (''design_reason'', JStr ''Isolated responsibility for long-term safety.'')]"

subsection \<open>WebImageIngestor\<close>

text \<open>
  Lines 119 to 121: the name is the hexadecimal MD5 digest of the bytes followed by
  \<open>.jpg\<close>, and the bytes are written under that name.
\<close>

definition store_image :: "'w env \<Rightarrow> (string \<times> bytes) list \<Rightarrow> bytes \<Rightarrow> (string \<times> bytes) list" where
  "store_image env dir data = write_file dir (md5_hexdigest env data @ ''.jpg'') data"

text \<open>
  The loop over \<open>soup.find_all("img")\<close>, one equation per element. \<open>urljoin\<close> stands
  outside every \<open>try\<close>, so its exception leaves the loop and \<open>clone\<close>; the body
  fetch, the verification and the write stand inside one.
\<close>

fun clone_loop :: "'w env \<Rightarrow> string option \<Rightarrow> int \<Rightarrow> string option list \<Rightarrow> int \<Rightarrow> 'w system
                     \<Rightarrow> (error + int) \<times> 'w system" where
  "clone_loop env url limit [] count s = (Inr count, s)"
| "clone_loop env url limit (img # rest) count s =
     (if count \<ge> limit then (Inr count, s)
      else case img of
        None \<Rightarrow> clone_loop env url limit rest count s
      | Some src0 \<Rightarrow>
          if src0 = [] then clone_loop env url limit rest count s
          else case urljoin env url src0 of
            Inl e \<Rightarrow> (Inl e, s)
          | Inr src \<Rightarrow>
              (case validate env (world s) src of
                 (False, w1) \<Rightarrow> clone_loop env url limit rest count (s\<lparr>world := w1\<rparr>)
               | (True, w1) \<Rightarrow>
                   (case requests_get_content env w1 src of
                      (Inl e, w2) \<Rightarrow> clone_loop env url limit rest count (s\<lparr>world := w2\<rparr>)
                    | (Inr data, w2) \<Rightarrow>
                        if \<not> image_verify env data
                        then clone_loop env url limit rest count (s\<lparr>world := w2\<rparr>)
                        else clone_loop env url limit rest (count + 1)
                               (s\<lparr>images := store_image env (images s) data,
                                  world := w2\<rparr>))))"

definition clone :: "'w env \<Rightarrow> 'w system \<Rightarrow> string option \<Rightarrow> int \<Rightarrow> (error + string) \<times> 'w system" where
  "clone env s url limit =
     (case requests_get_text env (world s) url of
        (Inl e, w') \<Rightarrow> (Inl e, s\<lparr>world := w'\<rparr>)
      | (Inr html, w') \<Rightarrow>
          (case clone_loop env url limit (find_all_img env html) 0 (s\<lparr>world := w'\<rparr>) of
             (Inl e, s') \<Rightarrow> (Inl e, s')
           | (Inr count, s') \<Rightarrow>
               (Inr (''Ingested '' @ str_int count @ '' validated images.''), s')))"

subsection \<open>PatternEngine\<close>

fun extract_loop :: "'w env \<Rightarrow> (string \<times> bytes) list \<Rightarrow> int \<Rightarrow> int" where
  "extract_loop env [] total_n = total_n"
| "extract_loop env ((f, content) # rest) total_n =
     (if image_resize env content then extract_loop env rest (total_n + 1)
      else extract_loop env rest total_n)"

definition "extract" :: "'w env \<Rightarrow> 'w system \<Rightarrow> int" where
  "extract env s = extract_loop env (images s) 0"

subsection \<open>BlanketCore\<close>

definition core_init :: "'w system \<Rightarrow> 'w system" where
  "core_init s = s\<lparr>memory := memory_init (memory s)\<rparr>"

definition execute :: "'w env \<Rightarrow> 'w system \<Rightarrow> string \<Rightarrow> string option \<Rightarrow> (error + string) \<times> 'w system" where
  "execute env s cmd payload =
     (case (if cmd = ''CLONE'' then
              (case clone env s payload 40 of
                 (Inl e, s1) \<Rightarrow> (Inl e, s1)
               | (Inr result, s1) \<Rightarrow> (Inr (result, ''WebImageIngestor''), s1))
            else if cmd = ''LEARN'' then
              (Inr (str_int (extract env s) @ '' patterns internalized.'', ''PatternEngine''), s)
            else (Inr (''Unknown command'', ''Core''), s)) of
        (Inl e, s1) \<Rightarrow> (Inl e, s1)
      | (Inr (result, module_name), s1) \<Rightarrow>
          (case record_event env s1 cmd
                  (JObj [(''why'', analyze result cmd module_name), (''structure'', explain env)]) of
             (Inl e, s2) \<Rightarrow> (Inl e, s2)
           | (Inr u, s2) \<Rightarrow> (Inr result, s2)))"

text \<open>A sequence of invocations, one after the other; the first exception ends it.\<close>

fun execute_all :: "'w env \<Rightarrow> 'w system \<Rightarrow> (string \<times> string option) list
                      \<Rightarrow> (error + string list) \<times> 'w system" where
  "execute_all env s [] = (Inr [], s)"
| "execute_all env s ((cmd, payload) # rest) =
     (case execute env s cmd payload of
        (Inl e, s1) \<Rightarrow> (Inl e, s1)
      | (Inr result, s1) \<Rightarrow>
          (case execute_all env s1 rest of
             (Inl e, s2) \<Rightarrow> (Inl e, s2)
           | (Inr results, s2) \<Rightarrow> (Inr (result # results), s2)))"

subsection \<open>Reading the model\<close>

text \<open>
  The event records of a log file as \<open>record\<close> sees them, and the condition under
  which \<open>record\<close> does not raise: the file is unreadable, or it holds a dict whose
  \<open>events\<close> entry is a list.
\<close>

definition events_of :: "memory_file \<Rightarrow> json list" where
  "events_of f =
     (case read_memory f of
        JObj data \<Rightarrow> (case map_of data ''events'' of Some (JArr events) \<Rightarrow> events | _ \<Rightarrow> [])
      | _ \<Rightarrow> [])"

definition log_shaped :: "memory_file \<Rightarrow> bool" where
  "log_shaped f =
     (case read_memory f of
        JObj data \<Rightarrow> (case map_of data ''events'' of Some (JArr events) \<Rightarrow> True | _ \<Rightarrow> False)
      | _ \<Rightarrow> False)"

definition perception_of :: "json \<Rightarrow> string option" where
  "perception_of e =
     (case e of
        JObj kv \<Rightarrow> (case map_of kv ''perception'' of Some (JStr p) \<Rightarrow> Some p | _ \<Rightarrow> None)
      | _ \<Rightarrow> None)"

text \<open>
  The payloads one run of the loop downloads and accepts, in order: the same loop as
  \<open>clone_loop\<close>, element by element, keeping the bytes that \<open>requests.get\<close>
  returned at line 116 and \<open>verify\<close> accepted at line 117 while the counter was below
  the limit, instead of the directory they are written to.
\<close>

fun clone_loop_payloads :: "'w env \<Rightarrow> string option \<Rightarrow> int \<Rightarrow> string option list \<Rightarrow> int \<Rightarrow> 'w
                              \<Rightarrow> bytes list" where
  "clone_loop_payloads env url limit [] count w = []"
| "clone_loop_payloads env url limit (img # rest) count w =
     (if count \<ge> limit then []
      else case img of
        None \<Rightarrow> clone_loop_payloads env url limit rest count w
      | Some src0 \<Rightarrow>
          if src0 = [] then clone_loop_payloads env url limit rest count w
          else case urljoin env url src0 of
            Inl e \<Rightarrow> []
          | Inr src \<Rightarrow>
              (case validate env w src of
                 (False, w1) \<Rightarrow> clone_loop_payloads env url limit rest count w1
               | (True, w1) \<Rightarrow>
                   (case requests_get_content env w1 src of
                      (Inl e, w2) \<Rightarrow> clone_loop_payloads env url limit rest count w2
                    | (Inr data, w2) \<Rightarrow>
                        if \<not> image_verify env data
                        then clone_loop_payloads env url limit rest count w2
                        else data # clone_loop_payloads env url limit rest (count + 1) w2)))"

definition clone_payloads :: "'w env \<Rightarrow> 'w system \<Rightarrow> string option \<Rightarrow> int \<Rightarrow> bytes list" where
  "clone_payloads env s url limit =
     (case requests_get_text env (world s) url of
        (Inl e, w') \<Rightarrow> []
      | (Inr html, w') \<Rightarrow> clone_loop_payloads env url limit (find_all_img env html) 0 w')"


subsection \<open>A small web to run the model on\<close>

text \<open>
  One site with two pages. The world counts the requests and clock readings made so far.
  \<open>a.jpg\<close> and \<open>copy.jpg\<close> serve the same six bytes, \<open>b.jpg\<close> serves others;
  \<open>notes.txt\<close> is not an image, \<open>huge.jpg\<close> declares 20,000,000 bytes,
  \<open>gone.jpg\<close> does not answer and \<open>broken.jpg\<close> serves an error page. The second
  page holds a reference that \<open>urljoin\<close> rejects. The digests are those \<open>hashlib.md5\<close>
  gives for the two payloads.
\<close>

definition example_head :: "string \<Rightarrow> error + response" where
  "example_head url =
     (if url \<in> {''http://example.com/a.jpg'', ''http://example.com/b.jpg''}
        then Inr \<lparr>headers = [''Content-Type'' \<mapsto> ''image/jpeg'', ''Content-Length'' \<mapsto> ''6'']\<rparr>
      else if url \<in> {''http://example.com/copy.jpg'', ''http://example.com/broken.jpg''}
        then Inr \<lparr>headers = [''Content-Type'' \<mapsto> ''Image/JPEG'']\<rparr>
      else if url = ''http://example.com/notes.txt''
        then Inr \<lparr>headers = [''Content-Type'' \<mapsto> ''text/plain'', ''Content-Length'' \<mapsto> ''6'']\<rparr>
      else if url = ''http://example.com/huge.jpg''
        then Inr \<lparr>headers = [''Content-Type'' \<mapsto> ''image/jpeg'',
                               ''Content-Length'' \<mapsto> ''20000000'']\<rparr>
      else Inl RequestError)"

definition example_content :: "string \<Rightarrow> error + bytes" where
  "example_content url =
     (if url \<in> {''http://example.com/a.jpg'', ''http://example.com/copy.jpg''} then Inr ''JPEG-A''
      else if url = ''http://example.com/b.jpg'' then Inr ''JPEG-B''
      else if url = ''http://example.com/broken.jpg'' then Inr ''<html>''
      else Inl RequestError)"

definition example_env :: "nat env" where
  "example_env =
     \<lparr>requests_head = (\<lambda>w url. (example_head url, Suc w)),
      requests_get_text = (\<lambda>w url.
        (if url = Some ''http://example.com/'' then Inr ''gallery''
         else if url = Some ''http://example.com/bad'' then Inr ''bad''
         else Inl RequestError, Suc w)),
      requests_get_content = (\<lambda>w url. (example_content url, Suc w)),
      find_all_img = (\<lambda>html.
        if html = ''gallery''
          then [Some ''a.jpg'', None, Some [], Some ''notes.txt'', Some ''huge.jpg'',
                Some ''gone.jpg'', Some ''broken.jpg'', Some ''copy.jpg'', Some ''b.jpg'']
        else if html = ''bad'' then [Some ''a.jpg'', Some ''//['', Some ''b.jpg'']
        else []),
      urljoin = (\<lambda>base src.
        if src = ''//['' then Inl ValueError else Inr (''http://example.com/'' @ src)),
      image_verify = (\<lambda>data. starts_with data ''JPEG''),
      md5_hexdigest = (\<lambda>data.
        if data = ''JPEG-A'' then ''2107606710dbb9df518a91a253f1a86b''
        else if data = ''JPEG-B'' then ''658a05ea05f0c4a36ded093ae0b51376''
        else []),
      image_resize = (\<lambda>data. starts_with data ''JPEG''),
      int_of_str = (\<lambda>v.
        if v = ''6'' then Some 6 else if v = ''20000000'' then Some 20000000 else None),
      getsource_lines = Some 27,
      time_time = (\<lambda>w. (real w, Suc w))\<rparr>"

definition example_start :: "nat system" where
  "example_start = \<lparr>images = [], memory = Document empty_events, world = 0\<rparr>"

section \<open>Properties\<close>

subsection \<open>Substring search\<close>

lemma starts_with_iff: "starts_with s sub \<longleftrightarrow> (\<exists>post. s = sub @ post)"
  by (induction s sub rule: starts_with.induct) auto

lemma str_in_iff: "str_in sub s \<longleftrightarrow> (\<exists>pre post. s = pre @ sub @ post)"
proof (induction s)
  case Nil
  then show ?case by auto
next
  case (Cons d s)
  show ?case
  proof
    assume "str_in sub (d # s)"
    then consider "starts_with (d # s) sub" | "str_in sub s" by auto
    then show "\<exists>pre post. d # s = pre @ sub @ post"
    proof cases
      case 1
      then obtain post where "d # s = sub @ post" by (auto simp: starts_with_iff)
      then have "d # s = [] @ sub @ post" by simp
      then show ?thesis by blast
    next
      case 2
      then obtain pre post where "s = pre @ sub @ post" using Cons.IH by auto
      then have "d # s = (d # pre) @ sub @ post" by simp
      then show ?thesis by blast
    qed
  next
    assume "\<exists>pre post. d # s = pre @ sub @ post"
    then obtain pre post where eq: "d # s = pre @ sub @ post" by blast
    show "str_in sub (d # s)"
    proof (cases pre)
      case Nil
      with eq have "starts_with (d # s) sub" by (auto simp: starts_with_iff)
      then show ?thesis by simp
    next
      case (Cons p pre')
      with eq have "s = pre' @ sub @ post" by simp
      then have "str_in sub s" using Cons.IH by blast
      then show ?thesis by simp
    qed
  qed
qed

text \<open>
  Searching the lowered string finds \<open>sub\<close> exactly when some run of the original
  string lowers to \<open>sub\<close>: containment up to case.
\<close>

lemma str_in_lower_iff:
  "str_in sub (lower s) \<longleftrightarrow> (\<exists>pre mid post. s = pre @ mid @ post \<and> lower mid = sub)"
proof
  assume "str_in sub (lower s)"
  then obtain p q where "map lower_char s = p @ sub @ q"
    by (auto simp: str_in_iff lower_def)
  then obtain pre rest where s1: "s = pre @ rest" and "map lower_char rest = sub @ q"
    by (metis map_eq_append_conv)
  then obtain mid post where "rest = mid @ post" and "map lower_char mid = sub"
    by (metis map_eq_append_conv)
  with s1 have "s = pre @ mid @ post \<and> lower mid = sub" by (simp add: lower_def)
  then show "\<exists>pre mid post. s = pre @ mid @ post \<and> lower mid = sub" by blast
next
  assume "\<exists>pre mid post. s = pre @ mid @ post \<and> lower mid = sub"
  then obtain pre mid post where "s = pre @ mid @ post" and "lower mid = sub" by blast
  then have "lower s = lower pre @ sub @ lower post" by (auto simp: lower_def)
  then show "str_in sub (lower s)" unfolding str_in_iff by blast
qed

subsection \<open>The validator\<close>

text \<open>
  C2. Whatever \<open>requests.head\<close> answers: if no run of the Content-Type value lowers to
  \<open>image\<close> (a missing header counts as the empty string), \<open>validate\<close> returns false
  whatever the declared length; if the Content-Length header converts to an integer above
  15,000,000, it returns false whatever the content type; and it returns true only if the
  content type contains \<open>image\<close> up to case and the declared length (0 for a missing
  header) is at most 15,000,000.
\<close>

theorem validate_rejects:
  assumes "requests_head env w url = (Inr r, w')"
  shows "(\<not> (\<exists>pre mid post.
              (case headers r ''Content-Type'' of None \<Rightarrow> [] | Some v \<Rightarrow> v) = pre @ mid @ post
              \<and> lower mid = ''image'')
          \<longrightarrow> fst (validate env w url) = False)
       \<and> (\<forall>v n. headers r ''Content-Length'' = Some v \<and> int_of_str env v = Some n \<and> n > 15000000
            \<longrightarrow> fst (validate env w url) = False)
       \<and> (fst (validate env w url) = True
            \<longrightarrow> (\<exists>pre mid post.
                   (case headers r ''Content-Type'' of None \<Rightarrow> [] | Some v \<Rightarrow> v) = pre @ mid @ post
                   \<and> lower mid = ''image'')
              \<and> (\<exists>n. (case headers r ''Content-Length'' of None \<Rightarrow> Some 0
                         | Some v \<Rightarrow> int_of_str env v) = Some n \<and> n \<le> 15000000))"
  using assms
  by (auto simp: validate_def Let_def str_in_lower_iff split: option.splits)

theorem validate_rejects_witness:
  "requests_head example_env 0 ''http://example.com/huge.jpg''
     = (Inr \<lparr>headers = [''Content-Type'' \<mapsto> ''image/jpeg'',
                            ''Content-Length'' \<mapsto> ''20000000'']\<rparr>, 1)
   \<and> int_of_str example_env ''20000000'' = Some 20000000
   \<and> fst (validate example_env 0 ''http://example.com/huge.jpg'') = False"
proof -
  have h: "requests_head example_env 0 ''http://example.com/huge.jpg''
     = (Inr \<lparr>headers = [''Content-Type'' \<mapsto> ''image/jpeg'',
                            ''Content-Length'' \<mapsto> ''20000000'']\<rparr>, 1)"
    by (simp add: example_env_def example_head_def)
  have i: "int_of_str example_env ''20000000'' = Some 20000000"
    by (simp add: example_env_def)
  from validate_rejects [OF h] i
  have "fst (validate example_env 0 ''http://example.com/huge.jpg'') = False"
    by simp
  with h i show ?thesis by blast
qed

text \<open>
  C8. A response without a Content-Length header whose content type contains \<open>image\<close>
  up to case is admitted (the missing length counts as 0), and an exception of the HEAD
  request makes \<open>validate\<close> return false instead of raising.
\<close>

theorem validate_missing_length_and_exception:
  "(requests_head env w url = (Inr r, w')
      \<and> headers r ''Content-Length'' = None
      \<and> (\<exists>pre mid post. headers r ''Content-Type'' = Some (pre @ mid @ post) \<and> lower mid = ''image'')
      \<longrightarrow> validate env w url = (True, w'))
   \<and> (requests_head env w url = (Inl e, w') \<longrightarrow> validate env w url = (False, w'))"
  by (auto simp: validate_def Let_def str_in_lower_iff split: option.splits)

theorem validate_missing_length_and_exception_witness:
  "validate example_env 0 ''http://example.com/copy.jpg'' = (True, 1)
   \<and> validate example_env 0 ''http://example.com/gone.jpg'' = (False, 1)"
proof -
  have h: "requests_head example_env 0 ''http://example.com/copy.jpg''
             = (Inr \<lparr>headers = [''Content-Type'' \<mapsto> ''Image/JPEG'']\<rparr>, 1)"
    by (simp add: example_env_def example_head_def)
  have t: "headers \<lparr>headers = [''Content-Type'' \<mapsto> ''Image/JPEG'']\<rparr> ''Content-Type''
             = Some ([] @ ''Image'' @ ''/JPEG'')"
    by simp
  have n: "headers \<lparr>headers = [''Content-Type'' \<mapsto> ''Image/JPEG'']\<rparr> ''Content-Length'' = None"
    by simp
  have l: "lower ''Image'' = ''image''"
    by code_simp
  have g: "requests_head example_env 0 ''http://example.com/gone.jpg'' = (Inl RequestError, 1)"
    by (simp add: example_env_def example_head_def)
  from validate_missing_length_and_exception
         [of example_env 0 "''http://example.com/copy.jpg''"
             "\<lparr>headers = [''Content-Type'' \<mapsto> ''Image/JPEG'']\<rparr>" 1] h t n l
  have a: "validate example_env 0 ''http://example.com/copy.jpg'' = (True, 1)"
    by blast
  from validate_missing_length_and_exception
         [of example_env 0 "''http://example.com/gone.jpg''" _ 1 RequestError] g
  have b: "validate example_env 0 ''http://example.com/gone.jpg'' = (False, 1)"
    by blast
  from a b show ?thesis by simp
qed

subsection \<open>The ingestion loop\<close>

text \<open>
  One element of the page either ends the loop (the limit is reached), raises (its
  reference cannot be joined), is skipped, or is stored and counted.
\<close>

lemma clone_loop_Cons_cases:
  assumes "clone_loop env url limit (img # rest) count s = res"
  shows "(count \<ge> limit \<and> res = (Inr count, s))
       \<or> (count < limit \<and> (\<exists>e src. res = (Inl e, s) \<and> img = Some src \<and> src \<noteq> []
                                \<and> urljoin env url src = Inl e))
       \<or> (count < limit \<and> (\<exists>w. res = clone_loop env url limit rest count (s\<lparr>world := w\<rparr>)))
       \<or> (count < limit \<and> (\<exists>w d. image_verify env d
              \<and> res = clone_loop env url limit rest (count + 1)
                        (s\<lparr>images := store_image env (images s) d, world := w\<rparr>)))"
proof (cases "count \<ge> limit")
  case True
  with assms show ?thesis by simp
next
  case False
  then have lt: "count < limit" by simp
  show ?thesis
  proof (cases img)
    case None
    with False assms have "res = clone_loop env url limit rest count (s\<lparr>world := world s\<rparr>)"
      by simp
    with lt show ?thesis by blast
  next
    case (Some src0)
    show ?thesis
    proof (cases "src0 = []")
      case True
      with Some False assms have "res = clone_loop env url limit rest count (s\<lparr>world := world s\<rparr>)"
        by simp
      with lt show ?thesis by blast
    next
      case ne: False
      show ?thesis
      proof (cases "urljoin env url src0")
        case (Inl e)
        with ne Some False assms show ?thesis by simp
      next
        case (Inr src)
        obtain ok w1 where v: "validate env (world s) src = (ok, w1)" by (metis surj_pair)
        obtain body w2 where b: "requests_get_content env w1 src = (body, w2)" by (metis surj_pair)
        show ?thesis
        proof (cases ok)
          case False
          with v Inr ne Some \<open>\<not> limit \<le> count\<close> assms
          have "res = clone_loop env url limit rest count (s\<lparr>world := w1\<rparr>)" by simp
          with lt show ?thesis by blast
        next
          case True
          show ?thesis
          proof (cases body)
            case (Inl e)
            with True b v Inr ne Some \<open>\<not> limit \<le> count\<close> assms
            have "res = clone_loop env url limit rest count (s\<lparr>world := w2\<rparr>)" by simp
            with lt show ?thesis by blast
          next
            case (Inr data)
            show ?thesis
            proof (cases "image_verify env data")
              case False
              with Inr True b v \<open>urljoin env url src0 = Inr src\<close> ne Some \<open>\<not> limit \<le> count\<close> assms
              have "res = clone_loop env url limit rest count (s\<lparr>world := w2\<rparr>)" by simp
              with lt show ?thesis by blast
            next
              case ok: True
              with Inr True b v \<open>urljoin env url src0 = Inr src\<close> ne Some \<open>\<not> limit \<le> count\<close> assms
              have "res = clone_loop env url limit rest (count + 1)
                        (s\<lparr>images := store_image env (images s) data, world := w2\<rparr>)" by simp
              with lt ok show ?thesis by blast
            qed
          qed
        qed
      qed
    qed
  qed
qed


text \<open>
  Whatever the outcome, the loop leaves the event log alone and changes the image
  directory only through \<open>store_image\<close>, once per counted image.
\<close>

lemma length_update_le: "length (AList.update k v al) \<le> Suc (length al)"
  by (induction al) auto

lemma length_store_image: "length (store_image env dir d) \<le> Suc (length dir)"
  by (simp add: store_image_def write_file_def length_update_le)

lemma length_foldl_store_image:
  "length (foldl (store_image env) dir ds) \<le> length dir + length ds"
proof (induction ds arbitrary: dir)
  case Nil
  show ?case by simp
next
  case (Cons d ds)
  have "length (foldl (store_image env) (store_image env dir d) ds)
          \<le> length (store_image env dir d) + length ds"
    by (rule Cons.IH)
  also have "\<dots> \<le> Suc (length dir) + length ds"
    using length_store_image [of env dir d] by simp
  finally show ?case by simp
qed

lemma clone_loop_effect:
  "clone_loop env url limit imgs count s = (r, s') \<Longrightarrow>
     memory s' = memory s
     \<and> (\<exists>ds. images s' = foldl (store_image env) (images s) ds
             \<and> int (length ds) \<le> max 0 (limit - count)
             \<and> (\<forall>d \<in> set ds. image_verify env d)
             \<and> (\<forall>n. r = Inr n \<longrightarrow> n = count + int (length ds)))"
proof (induction imgs arbitrary: count s)
  case Nil
  then have "s' = s" and "r = Inr count" by auto
  then have "images s' = foldl (store_image env) (images s) []
             \<and> int (length ([]::bytes list)) \<le> max 0 (limit - count)
             \<and> (\<forall>d \<in> set ([]::bytes list). image_verify env d)
             \<and> (\<forall>n. r = Inr n \<longrightarrow> n = count + int (length ([]::bytes list)))"
    by simp
  with \<open>s' = s\<close> show ?case by blast
next
  case (Cons img rest)
  from clone_loop_Cons_cases [OF Cons.prems]
  consider (stop) "limit \<le> count" "(r, s') = (Inr count, s)"
    | (raise) e where "(r, s') = (Inl e, s)"
    | (skip) w where "count < limit"
        "(r, s') = clone_loop env url limit rest count (s\<lparr>world := w\<rparr>)"
    | (store) w d where "count < limit" "image_verify env d"
        "(r, s') = clone_loop env url limit rest (count + 1)
                    (s\<lparr>images := store_image env (images s) d, world := w\<rparr>)"
    by blast
  then show ?case
  proof cases
    case stop
    then have "s' = s" and "r = Inr count" by auto
    then have "images s' = foldl (store_image env) (images s) []
             \<and> int (length ([]::bytes list)) \<le> max 0 (limit - count)
             \<and> (\<forall>d \<in> set ([]::bytes list). image_verify env d)
             \<and> (\<forall>n. r = Inr n \<longrightarrow> n = count + int (length ([]::bytes list)))"
      by simp
    with \<open>s' = s\<close> show ?thesis by blast
  next
    case raise
    then have "s' = s" and "r = Inl e" by auto
    then have "images s' = foldl (store_image env) (images s) []
             \<and> int (length ([]::bytes list)) \<le> max 0 (limit - count)
             \<and> (\<forall>d \<in> set ([]::bytes list). image_verify env d)
             \<and> (\<forall>n. r = Inr n \<longrightarrow> n = count + int (length ([]::bytes list)))"
      by simp
    with \<open>s' = s\<close> show ?thesis by blast
  next
    case skip
    from Cons.IH [OF skip(2) [symmetric]] show ?thesis by simp
  next
    case store
    from Cons.IH [OF store(3) [symmetric]]
    obtain ds where m: "memory s' = memory s"
      and i: "images s' = foldl (store_image env) (store_image env (images s) d) ds"
      and l: "int (length ds) \<le> max 0 (limit - (count + 1))"
      and v: "\<forall>d \<in> set ds. image_verify env d"
      and n: "\<forall>n. r = Inr n \<longrightarrow> n = count + 1 + int (length ds)"
      by auto
    from i have "images s' = foldl (store_image env) (images s) (d # ds)" by simp
    moreover from l store(1) have "int (length (d # ds)) \<le> max 0 (limit - count)" by simp
    moreover from v store(2) have "\<forall>x \<in> set (d # ds). image_verify env x" by simp
    moreover from n have "\<forall>n. r = Inr n \<longrightarrow> n = count + int (length (d # ds))" by auto
    ultimately show ?thesis using m by blast
  qed
qed

subsection \<open>Ingestion\<close>

lemma clone_effect:
  assumes "clone env s url limit = (r, s')"
  shows "memory s' = memory s
     \<and> (\<exists>ds. images s' = foldl (store_image env) (images s) ds
             \<and> int (length ds) \<le> max 0 limit
             \<and> (\<forall>d \<in> set ds. image_verify env d)
             \<and> (\<forall>summary. r = Inr summary \<longrightarrow>
                   summary = ''Ingested '' @ str_int (int (length ds)) @ '' validated images.''))"
proof -
  obtain page w' where g: "requests_get_text env (world s) url = (page, w')"
    by (metis surj_pair)
  show ?thesis
  proof (cases page)
    case (Inl e)
    with g assms have "s' = s\<lparr>world := w'\<rparr>" and "r = Inl e"
      by (auto simp: clone_def)
    then have "memory s' = memory s
       \<and> images s' = foldl (store_image env) (images s) []
       \<and> int (length ([]::bytes list)) \<le> max 0 limit
       \<and> (\<forall>d \<in> set ([]::bytes list). image_verify env d)
       \<and> (\<forall>summary. r = Inr summary \<longrightarrow>
             summary = ''Ingested '' @ str_int (int (length ([]::bytes list))) @ '' validated images.'')"
      by simp
    then show ?thesis by blast
  next
    case (Inr html)
    obtain q s1 where l: "clone_loop env url limit (find_all_img env html) 0 (s\<lparr>world := w'\<rparr>) = (q, s1)"
      by (metis surj_pair)
    from clone_loop_effect [OF l]
    obtain ds where m: "memory s1 = memory s"
      and i: "images s1 = foldl (store_image env) (images s) ds"
      and b: "int (length ds) \<le> max 0 limit"
      and v: "\<forall>d \<in> set ds. image_verify env d"
      and n: "\<forall>n. q = Inr n \<longrightarrow> n = int (length ds)"
      by auto
    from Inr g l assms have s': "s' = s1"
      by (auto simp: clone_def split: sum.splits)
    from Inr g l assms n
    have "\<forall>summary. r = Inr summary \<longrightarrow>
            summary = ''Ingested '' @ str_int (int (length ds)) @ '' validated images.''"
      by (auto simp: clone_def split: sum.splits)
    with m i b v s' show ?thesis by blast
  qed
qed

text \<open>
  C3. For every page URL and every limit that is a count (\<open>0 \<le> limit\<close>), \<open>clone\<close>
  adds at most \<open>limit\<close> files to the image directory whatever the page lists and
  however the call ends; when it returns, the count \<open>n\<close> of its summary satisfies
  \<open>0 \<le> n \<le> limit\<close> and bounds the files added; and the loop accepts nothing more
  once the counter has reached the limit.
\<close>

theorem clone_at_most_limit:
  assumes "0 \<le> limit" and "clone env s url limit = (r, s')"
  shows "length (images s') \<le> length (images s) + nat limit
       \<and> (\<forall>summary. r = Inr summary \<longrightarrow>
            (\<exists>n. summary = ''Ingested '' @ str_int n @ '' validated images.''
                 \<and> 0 \<le> n \<and> n \<le> limit
                 \<and> length (images s') \<le> length (images s) + nat n))
       \<and> (\<forall>imgs count st. limit \<le> count \<longrightarrow>
             clone_loop env url limit imgs count st = (Inr count, st))"
proof -
  from clone_effect [OF assms(2)]
  obtain ds where i: "images s' = foldl (store_image env) (images s) ds"
    and b: "int (length ds) \<le> max 0 limit"
    and n: "\<forall>summary. r = Inr summary \<longrightarrow>
              summary = ''Ingested '' @ str_int (int (length ds)) @ '' validated images.''"
    by blast
  from b assms(1) have bl: "int (length ds) \<le> limit" by simp
  from i have le: "length (images s') \<le> length (images s) + length ds"
    by (simp add: length_foldl_store_image)
  from bl have "length ds \<le> nat limit" by simp
  with le have a: "length (images s') \<le> length (images s) + nat limit" by simp
  have c: "\<forall>summary. r = Inr summary \<longrightarrow>
            (\<exists>n. summary = ''Ingested '' @ str_int n @ '' validated images.''
                 \<and> 0 \<le> n \<and> n \<le> limit
                 \<and> length (images s') \<le> length (images s) + nat n)"
  proof (intro allI impI)
    fix summary assume "r = Inr summary"
    with n have "summary = ''Ingested '' @ str_int (int (length ds)) @ '' validated images.''"
      by blast
    moreover have "0 \<le> int (length ds)" by simp
    moreover from le have "length (images s') \<le> length (images s) + nat (int (length ds))"
      by simp
    ultimately show "\<exists>n. summary = ''Ingested '' @ str_int n @ '' validated images.''
                 \<and> 0 \<le> n \<and> n \<le> limit
                 \<and> length (images s') \<le> length (images s) + nat n"
      using bl by blast
  qed
  have stop: "\<forall>imgs count st. limit \<le> count \<longrightarrow>
             clone_loop env url limit imgs count st = (Inr count, st)"
  proof (intro allI impI)
    fix imgs :: "string option list" and count :: int and st :: "'a system"
    assume "limit \<le> count"
    then show "clone_loop env url limit imgs count st = (Inr count, st)"
      by (cases imgs) simp_all
  qed
  from a c stop show ?thesis by blast
qed

theorem clone_at_most_limit_witness:
  "length (find_all_img example_env ''gallery'') = 9
   \<and> fst (clone example_env example_start (Some ''http://example.com/'') 40)
       = Inr ''Ingested 3 validated images.''
   \<and> fst (clone example_env example_start (Some ''http://example.com/'') 2)
       = Inr ''Ingested 2 validated images.''
   \<and> (\<exists>n. ''Ingested 2 validated images.'' = ''Ingested '' @ str_int n @ '' validated images.''
          \<and> 0 \<le> n \<and> n \<le> 2
          \<and> length (images (snd (clone example_env example_start (Some ''http://example.com/'') 2)))
              \<le> length (images example_start) + nat n)"
proof -
  have g: "length (find_all_img example_env ''gallery'') = 9"
    by (simp add: example_env_def)
  have c40: "fst (clone example_env example_start (Some ''http://example.com/'') 40)
       = Inr ''Ingested 3 validated images.''"
    by code_simp
  have c2: "fst (clone example_env example_start (Some ''http://example.com/'') 2)
       = Inr ''Ingested 2 validated images.''"
    by code_simp
  then have h: "clone example_env example_start (Some ''http://example.com/'') 2
       = (Inr ''Ingested 2 validated images.'',
          snd (clone example_env example_start (Some ''http://example.com/'') 2))"
    by (metis prod.collapse)
  have l: "(0::int) \<le> 2" by simp
  from clone_at_most_limit [OF l h]
  have "\<exists>n. ''Ingested 2 validated images.'' = ''Ingested '' @ str_int n @ '' validated images.''
          \<and> 0 \<le> n \<and> n \<le> 2
          \<and> length (images (snd (clone example_env example_start (Some ''http://example.com/'') 2)))
              \<le> length (images example_start) + nat n"
    by blast
  with g c40 c2 show ?thesis by blast
qed

subsection \<open>The event log\<close>

text \<open>
  \<open>record\<close> appends one entry when the log file is unreadable or holds a dict with an
  \<open>events\<close> list, and raises without touching anything otherwise.
\<close>

lemma map_of_update_same: "map_of (AList.update k v al) k = Some v"
  by (simp add: update_conv')

lemma log_shapedE:
  assumes "log_shaped f"
  obtains data events where "read_memory f = JObj data" and "map_of data ''events'' = Some (JArr events)"
    and "events_of f = events"
proof -
  have "\<exists>data events. read_memory f = JObj data \<and> map_of data ''events'' = Some (JArr events)
          \<and> events_of f = events"
  proof (cases "read_memory f")
    case (JObj data)
    show ?thesis
    proof (cases "map_of data ''events''")
      case None
      with assms JObj show ?thesis by (simp add: log_shaped_def)
    next
      case (Some v)
      with assms JObj show ?thesis
        by (cases v) (simp_all add: log_shaped_def events_of_def)
    qed
  qed (use assms in \<open>simp_all add: log_shaped_def\<close>)
  with that show thesis by blast
qed

lemma record_event_shaped:
  assumes "log_shaped (memory s)" and "time_time env (world s) = (t, w')"
  shows "\<exists>s'. record_event env s p a = (Inr (), s')
           \<and> images s' = images s \<and> world s' = w' \<and> log_shaped (memory s')
           \<and> events_of (memory s') = events_of (memory s) @
                [JObj [(''time'', JFloat t), (''perception'', JStr p), (''analysis'', a)]]"
proof -
  from assms(1) obtain data events where r: "read_memory (memory s) = JObj data"
    and e: "map_of data ''events'' = Some (JArr events)" and ev: "events_of (memory s) = events"
    by (rule log_shapedE)
  define doc where "doc = JObj (AList.update ''events''
      (JArr (events @ [JObj [(''time'', JFloat t), (''perception'', JStr p), (''analysis'', a)]])) data)"
  have "record_event env s p a = (Inr (), s\<lparr>memory := Document doc, world := w'\<rparr>)"
    using r e assms(2) by (simp add: record_event_def write_memory_def doc_def)
  moreover have "log_shaped (Document doc)"
    by (simp add: log_shaped_def doc_def map_of_update_same)
  moreover have "events_of (Document doc) = events @
      [JObj [(''time'', JFloat t), (''perception'', JStr p), (''analysis'', a)]]"
    by (simp add: events_of_def doc_def map_of_update_same)
  ultimately show ?thesis using ev by simp
qed

lemma record_event_unshaped:
  assumes "\<not> log_shaped (memory s)"
  shows "\<exists>e. record_event env s p a = (Inl e, s)"
  using assms
  by (auto simp: record_event_def log_shaped_def split: json.splits option.splits prod.splits)

lemma record_event_Inr_shaped:
  assumes "record_event env s p a = (Inr u, s')"
  shows "log_shaped (memory s)"
  using assms record_event_unshaped [of s env p a] by auto

lemma perception_of_entry:
  "perception_of (JObj [(''time'', JFloat t), (''perception'', JStr p), (''analysis'', a)]) = Some p"
  by (simp add: perception_of_def)

text \<open>
  C9. When the event-log file is missing or is not valid JSON, \<open>_read\<close> returns a
  document with an empty \<open>events\<close> list without raising, and the next \<open>record\<close>
  writes a fresh document whose only entry is the new one.
\<close>

theorem record_event_unreadable:
  assumes "memory s = Absent \<or> memory s = Garbage" and "time_time env (world s) = (t, w')"
  shows "read_memory (memory s) = JObj [(''events'', JArr [])]
       \<and> record_event env s perception analysis =
           (Inr (),
            s\<lparr>memory := Document (JObj [(''events'',
                  JArr [JObj [(''time'', JFloat t), (''perception'', JStr perception),
                              (''analysis'', analysis)]])]),
              world := w'\<rparr>)"
  using assms
  by (auto simp: record_event_def empty_events_def write_memory_def)

theorem record_event_unreadable_witness:
  "read_memory (memory (example_start\<lparr>memory := Garbage\<rparr>)) = JObj [(''events'', JArr [])]
   \<and> record_event example_env (example_start\<lparr>memory := Garbage\<rparr>) ''LEARN'' JNull =
       (Inr (),
        example_start\<lparr>memory := Document (JObj [(''events'',
              JArr [JObj [(''time'', JFloat 0), (''perception'', JStr ''LEARN''),
                          (''analysis'', JNull)]])]),
          world := 1\<rparr>)"
proof -
  have m: "memory (example_start\<lparr>memory := Garbage\<rparr>) = Absent
             \<or> memory (example_start\<lparr>memory := Garbage\<rparr>) = Garbage"
    by simp
  have t: "time_time example_env (world (example_start\<lparr>memory := Garbage\<rparr>)) = (0, 1)"
    by (simp add: example_env_def example_start_def)
  from record_event_unreadable [OF m t, of "''LEARN''" JNull] show ?thesis
    by simp
qed

subsection \<open>The dispatcher\<close>

text \<open>
  C10. When the page fetch of a CLONE command raises, \<open>execute\<close> ends with that
  exception and the event log and the image directory are as they were before the call:
  \<open>record\<close> is reached only after \<open>clone\<close> has returned.
\<close>

theorem execute_clone_fetch_raises:
  assumes "requests_get_text env (world s) payload = (Inl e, w')"
  shows "execute env s ''CLONE'' payload = (Inl e, s\<lparr>world := w'\<rparr>)
       \<and> memory (snd (execute env s ''CLONE'' payload)) = memory s
       \<and> images (snd (execute env s ''CLONE'' payload)) = images s"
  using assms by (simp add: execute_def clone_def)

theorem execute_clone_fetch_raises_witness:
  "execute example_env example_start ''CLONE'' (Some ''http://nowhere.invalid/'')
     = (Inl RequestError, example_start\<lparr>world := 1\<rparr>)
   \<and> memory (snd (execute example_env example_start ''CLONE'' (Some ''http://nowhere.invalid/'')))
       = memory example_start"
proof -
  have g: "requests_get_text example_env (world example_start) (Some ''http://nowhere.invalid/'')
             = (Inl RequestError, 1)"
    by (simp add: example_env_def example_start_def)
  from execute_clone_fetch_raises [OF g] show ?thesis by simp
qed

text \<open>
  An invocation that returns has appended exactly one entry, carrying the command name,
  and has left a log that the next invocation can append to.
\<close>

lemma execute_Inr:
  assumes "execute env s cmd payload = (Inr result, s')"
  shows "log_shaped (memory s')
       \<and> (\<exists>e. events_of (memory s') = events_of (memory s) @ [e] \<and> perception_of e = Some cmd)"
proof -
  define analysis where "analysis result' mname =
     JObj [(''why'', analyze result' cmd mname), (''structure'', explain env)]"
    for result' mname
  have "\<exists>s1 result' mname u.
          memory s1 = memory s \<and> record_event env s1 cmd (analysis result' mname) = (Inr u, s')"
  proof (cases "cmd = ''CLONE''")
    case True
    obtain r s1 where c: "clone env s payload 40 = (r, s1)" by (metis surj_pair)
    from clone_effect [OF c] have m: "memory s1 = memory s" by blast
    from assms True c show ?thesis using m
      by (auto simp: execute_def analysis_def split: sum.splits prod.splits)
  next
    case False
    with assms show ?thesis
      by (auto simp: execute_def analysis_def split: sum.splits prod.splits if_splits)
  qed
  then obtain s1 result' mname u where m: "memory s1 = memory s"
    and r: "record_event env s1 cmd (analysis result' mname) = (Inr u, s')"
    by blast
  from r have sh: "log_shaped (memory s1)" by (rule record_event_Inr_shaped)
  obtain t w' where t: "time_time env (world s1) = (t, w')" by (metis surj_pair)
  from record_event_shaped [OF sh t, of cmd "analysis result' mname"] r m
  show ?thesis
    by (auto simp: perception_of_entry)
qed

text \<open>A formatted count starts with a digit or a minus sign, and the scan counts.\<close>

lemma str_nat_hd: "str_nat n \<noteq> [] \<and> (\<exists>d < 10. hd (str_nat n) = digit_char d)"
proof (induction n rule: str_nat.induct)
  case (1 n)
  show ?case
  proof (cases "n < 10")
    case True
    then show ?thesis by (subst (1 2) str_nat.simps) auto
  next
    case False
    with 1 have "str_nat (n div 10) \<noteq> [] \<and> (\<exists>d < 10. hd (str_nat (n div 10)) = digit_char d)"
      by simp
    with False show ?thesis by (subst (1 2) str_nat.simps) auto
  qed
qed

lemma digit_char_not_U: "d < 10 \<Longrightarrow> digit_char d \<noteq> CHR ''U''"
proof
  assume "d < 10" and "digit_char d = CHR ''U''"
  then have "of_char (char_of (48 + d)) = (of_char CHR ''U'' :: nat)"
    by (simp add: digit_char_def)
  with \<open>d < 10\<close> show False by simp
qed

lemma str_int_not_Unknown: "str_int i @ rest \<noteq> ''Unknown command''"
proof
  assume a: "str_int i @ rest = ''Unknown command''"
  show False
  proof (cases "i < 0")
    case True
    with a show False by (simp add: str_int_def)
  next
    case False
    from str_nat_hd [of "nat i"] obtain d where ne: "str_nat (nat i) \<noteq> []"
      and d: "d < 10" and h: "hd (str_nat (nat i)) = digit_char d" by blast
    from a False have "hd (str_nat (nat i) @ rest) = CHR ''U''" by (simp add: str_int_def)
    with ne h have "digit_char d = CHR ''U''" by simp
    with d show False using digit_char_not_U by blast
  qed
qed

lemma extract_loop_count:
  "extract_loop env dir total_n
     = total_n + int (length (filter (\<lambda>(f, content). image_resize env content) dir))"
  by (induction dir arbitrary: total_n) auto

lemma str_int_0: "str_int 0 = ''0''"
  by code_simp

text \<open>
  C5. \<open>execute\<close> recognises exactly the two command names \<open>CLONE\<close> (ingest) and
  \<open>LEARN\<close>: for every other command string, on a log that \<open>record\<close> can append to,
  it returns \<open>Unknown command\<close>, leaves the image directory alone and appends exactly
  one event record carrying that command name; for the two names it never returns
  \<open>Unknown command\<close>.
\<close>

theorem execute_unknown_command:
  "(cmd \<noteq> ''CLONE'' \<and> cmd \<noteq> ''LEARN'' \<and> log_shaped (memory s) \<longrightarrow>
      (\<exists>s' e. execute env s cmd payload = (Inr ''Unknown command'', s')
          \<and> images s' = images s
          \<and> events_of (memory s') = events_of (memory s) @ [e]
          \<and> perception_of e = Some cmd))
   \<and> (cmd = ''CLONE'' \<or> cmd = ''LEARN'' \<longrightarrow>
         fst (execute env s cmd payload) \<noteq> Inr ''Unknown command'')"
proof (intro conjI impI)
  assume a: "cmd \<noteq> ''CLONE'' \<and> cmd \<noteq> ''LEARN'' \<and> log_shaped (memory s)"
  obtain t w' where t: "time_time env (world s) = (t, w')" by (metis surj_pair)
  from a have sh: "log_shaped (memory s)" by simp
  from record_event_shaped [OF sh t, of cmd
         "JObj [(''why'', analyze ''Unknown command'' cmd ''Core''), (''structure'', explain env)]"]
  obtain s' where r: "record_event env s cmd
         (JObj [(''why'', analyze ''Unknown command'' cmd ''Core''), (''structure'', explain env)])
           = (Inr (), s')"
    and i: "images s' = images s"
    and e: "events_of (memory s') = events_of (memory s) @
                [JObj [(''time'', JFloat t), (''perception'', JStr cmd),
                       (''analysis'', JObj [(''why'', analyze ''Unknown command'' cmd ''Core''),
                                            (''structure'', explain env)])]]"
    by blast
  from a r have "execute env s cmd payload = (Inr ''Unknown command'', s')"
    by (simp add: execute_def)
  with i e show "\<exists>s' e. execute env s cmd payload = (Inr ''Unknown command'', s')
          \<and> images s' = images s
          \<and> events_of (memory s') = events_of (memory s) @ [e]
          \<and> perception_of e = Some cmd"
    using perception_of_entry by blast
next
  assume "cmd = ''CLONE'' \<or> cmd = ''LEARN''"
  then show "fst (execute env s cmd payload) \<noteq> Inr ''Unknown command''"
  proof
    assume c: "cmd = ''CLONE''"
    obtain r s1 where cl: "clone env s payload 40 = (r, s1)" by (metis surj_pair)
    from clone_effect [OF cl] have "\<forall>summary. r = Inr summary \<longrightarrow> summary \<noteq> ''Unknown command''"
      by auto
    with c cl show ?thesis
      by (auto simp: execute_def split: sum.splits prod.splits)
  next
    assume l: "cmd = ''LEARN''"
    then show ?thesis
      using str_int_not_Unknown [of "extract env s" "'' patterns internalized.''"]
      by (auto simp: execute_def split: sum.splits prod.splits)
  qed
qed

theorem execute_unknown_command_witness:
  "execute example_env example_start ''UNKNOWN'' None
     = (Inr ''Unknown command'',
        snd (execute example_env example_start ''UNKNOWN'' None))
   \<and> map perception_of (events_of (memory (snd (execute example_env example_start ''UNKNOWN'' None))))
       = [Some ''UNKNOWN'']
   \<and> fst (execute example_env example_start ''LEARN'' None) \<noteq> Inr ''Unknown command''"
proof -
  have c: "''UNKNOWN'' \<noteq> ''CLONE'' \<and> ''UNKNOWN'' \<noteq> ''LEARN'' \<and> log_shaped (memory example_start)"
    by (simp add: example_start_def log_shaped_def empty_events_def)
  have e: "events_of (memory example_start) = []"
    by (simp add: example_start_def events_of_def empty_events_def)
  from execute_unknown_command [of "''UNKNOWN''" example_start example_env None] c e
  have "execute example_env example_start ''UNKNOWN'' None
     = (Inr ''Unknown command'',
        snd (execute example_env example_start ''UNKNOWN'' None))
   \<and> map perception_of (events_of (memory (snd (execute example_env example_start ''UNKNOWN'' None))))
       = [Some ''UNKNOWN'']"
    by auto
  moreover from execute_unknown_command [of "''LEARN''" example_start example_env None]
  have "fst (execute example_env example_start ''LEARN'' None) \<noteq> Inr ''Unknown command''"
    by simp
  ultimately show ?thesis by simp
qed

subsection \<open>The pattern scan\<close>

text \<open>
  C7. \<open>extract\<close> returns the number of files of the image directory that decode and
  resize; a file that does not is skipped and the scan goes on. With an empty directory
  (and a log that \<open>record\<close> can append to) the LEARN command returns
  \<open>0 patterns internalized.\<close> and appends exactly one event record.
\<close>

theorem extract_counts_decodable:
  "extract env s = int (length (filter (\<lambda>(f, content). image_resize env content) (images s)))
   \<and> (images s = [] \<and> log_shaped (memory s) \<longrightarrow>
        (\<exists>s' e. execute env s ''LEARN'' payload = (Inr ''0 patterns internalized.'', s')
            \<and> events_of (memory s') = events_of (memory s) @ [e]
            \<and> perception_of e = Some ''LEARN''))"
proof (intro conjI impI)
  show "extract env s = int (length (filter (\<lambda>(f, content). image_resize env content) (images s)))"
    by (simp add: extract_def extract_loop_count)
next
  assume a: "images s = [] \<and> log_shaped (memory s)"
  then have x: "extract env s = 0" by (simp add: extract_def)
  obtain t w' where t: "time_time env (world s) = (t, w')" by (metis surj_pair)
  from a have sh: "log_shaped (memory s)" by simp
  from record_event_shaped [OF sh t, of "''LEARN''"
         "JObj [(''why'', analyze ''0 patterns internalized.'' ''LEARN'' ''PatternEngine''),
                (''structure'', explain env)]"]
  obtain s' where r: "record_event env s ''LEARN''
         (JObj [(''why'', analyze ''0 patterns internalized.'' ''LEARN'' ''PatternEngine''),
                (''structure'', explain env)]) = (Inr (), s')"
    and e: "events_of (memory s') = events_of (memory s) @
                [JObj [(''time'', JFloat t), (''perception'', JStr ''LEARN''),
                       (''analysis'',
                        JObj [(''why'', analyze ''0 patterns internalized.'' ''LEARN'' ''PatternEngine''),
                              (''structure'', explain env)])]]"
    by blast
  from x r have "execute env s ''LEARN'' payload = (Inr ''0 patterns internalized.'', s')"
    by (simp add: execute_def str_int_0)
  with e show "\<exists>s' e. execute env s ''LEARN'' payload = (Inr ''0 patterns internalized.'', s')
            \<and> events_of (memory s') = events_of (memory s) @ [e]
            \<and> perception_of e = Some ''LEARN''"
    using perception_of_entry by blast
qed

theorem extract_counts_decodable_witness:
  "extract example_env
       (example_start\<lparr>images := [(''a.jpg'', ''JPEG-A''), (''b.jpg'', ''<html>'')]\<rparr>) = 1
   \<and> execute example_env example_start ''LEARN'' None
       = (Inr ''0 patterns internalized.'', snd (execute example_env example_start ''LEARN'' None))
   \<and> map perception_of (events_of (memory (snd (execute example_env example_start ''LEARN'' None))))
       = [Some ''LEARN'']"
proof -
  have c: "images example_start = [] \<and> log_shaped (memory example_start)"
    by (simp add: example_start_def log_shaped_def empty_events_def)
  have e: "events_of (memory example_start) = []"
    by (simp add: example_start_def events_of_def empty_events_def)
  have r: "image_resize example_env = (\<lambda>data. starts_with data ''JPEG'')"
    by (simp add: example_env_def)
  from extract_counts_decodable [of example_env
         "example_start\<lparr>images := [(''a.jpg'', ''JPEG-A''), (''b.jpg'', ''<html>'')]\<rparr>"]
  have "extract example_env
       (example_start\<lparr>images := [(''a.jpg'', ''JPEG-A''), (''b.jpg'', ''<html>'')]\<rparr>) = 1"
    by (simp add: r)
  moreover from extract_counts_decodable [of example_env example_start None] c e
  have "execute example_env example_start ''LEARN'' None
       = (Inr ''0 patterns internalized.'', snd (execute example_env example_start ''LEARN'' None))
   \<and> map perception_of (events_of (memory (snd (execute example_env example_start ''LEARN'' None))))
       = [Some ''LEARN'']"
    by auto
  ultimately show ?thesis by simp
qed

subsection \<open>Sequences of invocations\<close>

lemma execute_all_events:
  "execute_all env s cmds = (Inr results, s') \<Longrightarrow>
     \<exists>es. events_of (memory s') = events_of (memory s) @ es
        \<and> map perception_of es = map (\<lambda>(cmd, payload). Some cmd) cmds
        \<and> length results = length cmds"
proof (induction cmds arbitrary: s results)
  case Nil
  then show ?case by simp
next
  case (Cons c cmds)
  obtain cmd payload where c: "c = (cmd, payload)" by (metis surj_pair)
  obtain r1 s1 where e1: "execute env s cmd payload = (r1, s1)" by (metis surj_pair)
  obtain r2 s2 where e2: "execute_all env s1 cmds = (r2, s2)" by (metis surj_pair)
  from Cons.prems c e1 e2 obtain result rest where r1: "r1 = Inr result" and r2: "r2 = Inr rest"
    and res: "results = result # rest" and s': "s' = s2"
    by (auto split: sum.splits)
  from e1 r1 execute_Inr obtain e where a: "events_of (memory s1) = events_of (memory s) @ [e]"
    and p: "perception_of e = Some cmd" by blast
  from Cons.IH [of s1 rest] e2 r2 s' obtain es where
    b: "events_of (memory s') = events_of (memory s1) @ es"
    and q: "map perception_of es = map (\<lambda>(cmd, payload). Some cmd) cmds"
    and l: "length rest = length cmds" by auto
  from a b have "events_of (memory s') = events_of (memory s) @ (e # es)" by simp
  moreover from p q c have "map perception_of (e # es) = map (\<lambda>(cmd, payload). Some cmd) (c # cmds)"
    by simp
  moreover from l res have "length results = length (c # cmds)" by simp
  ultimately show ?case by blast
qed

text \<open>
  C6. Starting from a log without entries, after \<open>N\<close> invocations run one after the other
  that all returned, the log holds exactly \<open>N\<close> event records, and their command names
  are those of the invocations in the order they were made.
\<close>

theorem event_log_one_entry_per_invocation:
  assumes "events_of (memory s) = []"
    and "execute_all env s cmds = (Inr results, s')"
  shows "length (events_of (memory s')) = length cmds
       \<and> map perception_of (events_of (memory s')) = map (\<lambda>(cmd, payload). Some cmd) cmds"
proof -
  from execute_all_events [OF assms(2)] assms(1)
  obtain es where "events_of (memory s') = es"
    and m: "map perception_of es = map (\<lambda>(cmd, payload). Some cmd) cmds"
    by auto
  moreover from m have "length es = length cmds" by (metis length_map)
  ultimately show ?thesis by simp
qed

theorem event_log_one_entry_per_invocation_witness:
  "length (events_of (memory (snd (execute_all example_env example_start
       [(''CLONE'', Some ''http://example.com/''), (''LEARN'', None), (''UNKNOWN'', None)])))) = 3
   \<and> map perception_of (events_of (memory (snd (execute_all example_env example_start
       [(''CLONE'', Some ''http://example.com/''), (''LEARN'', None), (''UNKNOWN'', None)]))))
       = [Some ''CLONE'', Some ''LEARN'', Some ''UNKNOWN'']"
proof -
  have e: "events_of (memory example_start) = []"
    by (simp add: example_start_def events_of_def empty_events_def)
  have "fst (execute_all example_env example_start
          [(''CLONE'', Some ''http://example.com/''), (''LEARN'', None), (''UNKNOWN'', None)])
     = Inr [''Ingested 3 validated images.'', ''2 patterns internalized.'', ''Unknown command'']"
    by code_simp
  then have h: "execute_all example_env example_start
          [(''CLONE'', Some ''http://example.com/''), (''LEARN'', None), (''UNKNOWN'', None)]
     = (Inr [''Ingested 3 validated images.'', ''2 patterns internalized.'', ''Unknown command''],
        snd (execute_all example_env example_start
          [(''CLONE'', Some ''http://example.com/''), (''LEARN'', None), (''UNKNOWN'', None)]))"
    by (metis prod.collapse)
  from event_log_one_entry_per_invocation [OF e h] show ?thesis by simp
qed

subsection \<open>Content-addressed storage\<close>

text \<open>
  A file name is a function of the bytes stored under it, and a directory holds one file
  per name.
\<close>

lemma update_twice: "AList.update k v (AList.update k v al) = AList.update k v al"
  by (induction al) auto

lemma store_image_names:
  "fst ` set (store_image env dir d) = insert (md5_hexdigest env d @ ''.jpg'') (fst ` set dir)"
  by (simp add: store_image_def write_file_def dom_update)

lemma store_image_distinct:
  "distinct (map fst dir) \<Longrightarrow> distinct (map fst (store_image env dir d))"
  by (simp add: store_image_def write_file_def distinct_update)

lemma foldl_store_image_names:
  "fst ` set (foldl (store_image env) dir ds)
     = fst ` set dir \<union> (\<lambda>d. md5_hexdigest env d @ ''.jpg'') ` set ds"
  by (induction ds arbitrary: dir) (auto simp: store_image_names)

lemma foldl_store_image_distinct:
  "distinct (map fst dir) \<Longrightarrow> distinct (map fst (foldl (store_image env) dir ds))"
  by (induction ds arbitrary: dir) (auto simp: store_image_distinct)

lemma one_file_per_name:
  "distinct (map fst dir) \<Longrightarrow> k \<in> fst ` set dir \<Longrightarrow>
     length (filter (\<lambda>(name, content). name = k) dir) = 1"
proof (induction dir)
  case Nil
  then show ?case by simp
next
  case (Cons p dir)
  obtain n c where p: "p = (n, c)" by (metis surj_pair)
  show ?case
  proof (cases "n = k")
    case True
    with Cons.prems p have "k \<notin> fst ` set dir" by auto
    then have "filter (\<lambda>(name, content). name = k) dir = []"
      by (force simp: filter_empty_conv)
    with True p show ?thesis by simp
  next
    case False
    with Cons p show ?thesis by auto
  qed
qed

text \<open>
  Each run changes the directory exactly by storing, in order, the payloads it downloaded
  and accepted, and its summary reports their number.
\<close>

lemma clone_loop_payloads_accepts:
  assumes "count < limit" and "src0 \<noteq> []" and "urljoin env url src0 = Inr src"
    and "validate env w src = (True, w1)"
    and "requests_get_content env w1 src = (Inr data, w2)"
    and "image_verify env data"
  shows "clone_loop_payloads env url limit (Some src0 # rest) count w
           = data # clone_loop_payloads env url limit rest (count + 1) w2"
  using assms by simp

lemma clone_loop_stores_payloads:
  "clone_loop env url limit imgs count s = (r, s') \<Longrightarrow>
     images s' = foldl (store_image env) (images s)
                   (clone_loop_payloads env url limit imgs count (world s))
     \<and> (\<forall>n. r = Inr n \<longrightarrow>
           n = count + int (length (clone_loop_payloads env url limit imgs count (world s))))"
proof (induction imgs arbitrary: count s)
  case Nil
  then show ?case by auto
next
  case (Cons img rest)
  note prem = Cons.prems
  show ?case
  proof (cases "count \<ge> limit")
    case True
    with prem show ?thesis by auto
  next
    case lim: False
    show ?thesis
    proof (cases img)
      case None
      with lim prem have "clone_loop env url limit rest count s = (r, s')" by simp
      from Cons.IH [OF this] None lim show ?thesis by simp
    next
      case (Some src0)
      show ?thesis
      proof (cases "src0 = []")
        case True
        with Some lim prem have "clone_loop env url limit rest count s = (r, s')" by simp
        from Cons.IH [OF this] True Some lim show ?thesis by simp
      next
        case ne: False
        show ?thesis
        proof (cases "urljoin env url src0")
          case (Inl e)
          with ne Some lim prem show ?thesis by auto
        next
          case (Inr src)
          obtain ok w1 where v: "validate env (world s) src = (ok, w1)" by (metis surj_pair)
          obtain body w2 where b: "requests_get_content env w1 src = (body, w2)"
            by (metis surj_pair)
          show ?thesis
          proof (cases ok)
            case False
            with v Inr ne Some lim prem
            have "clone_loop env url limit rest count (s\<lparr>world := w1\<rparr>) = (r, s')" by simp
            from Cons.IH [OF this] False v Inr ne Some lim show ?thesis by simp
          next
            case True
            show ?thesis
            proof (cases body)
              case (Inl e)
              with True b v Inr ne Some lim prem
              have "clone_loop env url limit rest count (s\<lparr>world := w2\<rparr>) = (r, s')" by simp
              from Cons.IH [OF this] Inl True b v \<open>urljoin env url src0 = Inr src\<close> ne Some lim
              show ?thesis by simp
            next
              case data: (Inr data)
              show ?thesis
              proof (cases "image_verify env data")
                case False
                with data True b v Inr ne Some lim prem
                have "clone_loop env url limit rest count (s\<lparr>world := w2\<rparr>) = (r, s')" by simp
                from Cons.IH [OF this] False data True b v Inr ne Some lim
                show ?thesis by simp
              next
                case ok: True
                with data True b v Inr ne Some lim prem
                have "clone_loop env url limit rest (count + 1)
                        (s\<lparr>images := store_image env (images s) data, world := w2\<rparr>) = (r, s')"
                  by simp
                from Cons.IH [OF this] ok data True b v Inr ne Some lim
                show ?thesis by auto
              qed
            qed
          qed
        qed
      qed
    qed
  qed
qed

lemma clone_loop_payloads_verified:
  "list_all (image_verify env) (clone_loop_payloads env url limit imgs count w)"
proof (induction imgs arbitrary: count w)
  case Nil
  show ?case by simp
next
  case (Cons img rest)
  show ?case
    by (simp add: Cons.IH split: option.split sum.split prod.split bool.split)
qed

lemma clone_stores_payloads:
  assumes "clone env s url limit = (r, s')"
  shows "images s' = foldl (store_image env) (images s) (clone_payloads env s url limit)
       \<and> (\<forall>summary. r = Inr summary \<longrightarrow>
             summary = ''Ingested '' @ str_int (int (length (clone_payloads env s url limit)))
                         @ '' validated images.'')"
proof -
  obtain page w' where g: "requests_get_text env (world s) url = (page, w')"
    by (metis surj_pair)
  show ?thesis
  proof (cases page)
    case (Inl e)
    with g assms show ?thesis by (auto simp: clone_def clone_payloads_def)
  next
    case (Inr html)
    obtain q s1 where l: "clone_loop env url limit (find_all_img env html) 0 (s\<lparr>world := w'\<rparr>) = (q, s1)"
      by (metis surj_pair)
    from clone_loop_stores_payloads [OF l] Inr g
    have i: "images s1 = foldl (store_image env) (images s) (clone_payloads env s url limit)"
      and n: "\<forall>n. q = Inr n \<longrightarrow> n = int (length (clone_payloads env s url limit))"
      by (simp_all add: clone_payloads_def)
    from Inr g l assms have "s' = s1" by (auto simp: clone_def split: sum.splits)
    moreover from Inr g l assms n
    have "\<forall>summary. r = Inr summary \<longrightarrow>
             summary = ''Ingested '' @ str_int (int (length (clone_payloads env s url limit)))
                         @ '' validated images.''"
      by (auto simp: clone_def split: sum.splits)
    ultimately show ?thesis using i by simp
  qed
qed

lemma length_le_new_payloads:
  assumes "distinct (map fst dir)"
  shows "length (foldl (store_image env) dir ds) \<le> length dir + card (set ds)"
proof -
  have "length (foldl (store_image env) dir ds)
          = card (fst ` set (foldl (store_image env) dir ds))"
    using foldl_store_image_distinct [OF assms, of env ds]
    by (metis distinct_card length_map set_map)
  also have "\<dots> = card (fst ` set dir \<union> (\<lambda>d. md5_hexdigest env d @ ''.jpg'') ` set ds)"
    by (simp only: foldl_store_image_names)
  also have "\<dots> \<le> card (fst ` set dir) + card ((\<lambda>d. md5_hexdigest env d @ ''.jpg'') ` set ds)"
    by (rule card_Un_le)
  also have "\<dots> \<le> length dir + card (set ds)"
  proof -
    have "card (fst ` set dir) \<le> length dir"
      by (metis card_length length_map set_map)
    moreover have "card ((\<lambda>d. md5_hexdigest env d @ ''.jpg'') ` set ds) \<le> card (set ds)"
      by (simp add: card_image_le)
    ultimately show ?thesis by simp
  qed
  finally show ?thesis .
qed

text \<open>
  C1. Take two ingestion runs, one after the other, on a directory without duplicate
  names, and a payload \<open>data\<close> that either run downloaded and accepted, once or several
  times, in the same run or in both. The directory afterwards is the initial one with the
  downloaded payloads stored in order; it holds exactly one file named by the hexadecimal
  MD5 digest of \<open>data\<close> followed by \<open>.jpg\<close>; it has grown by at most one file per
  distinct payload, so byte-identical downloads share a file; and storing \<open>data\<close> once
  more changes nothing beyond the first store, after which the file holds those bytes.
\<close>

theorem ingestion_content_addressed:
  assumes "distinct (map fst (images s0))"
    and "clone env s0 url1 limit1 = (r1, s1)"
    and "clone env s1 url2 limit2 = (r2, s2)"
    and "data \<in> set (clone_payloads env s0 url1 limit1 @ clone_payloads env s1 url2 limit2)"
  shows "images s2 = foldl (store_image env) (images s0)
                       (clone_payloads env s0 url1 limit1 @ clone_payloads env s1 url2 limit2)
       \<and> length (filter (\<lambda>(name, content). name = md5_hexdigest env data @ ''.jpg'')
                   (images s2)) = 1
       \<and> length (images s2) \<le> length (images s0)
             + card (set (clone_payloads env s0 url1 limit1 @ clone_payloads env s1 url2 limit2))
       \<and> store_image env (store_image env (images s2) data) data = store_image env (images s2) data
       \<and> map_of (store_image env (images s2) data) (md5_hexdigest env data @ ''.jpg'') = Some data"
proof -
  from clone_stores_payloads [OF assms(2)]
  have i1: "images s1 = foldl (store_image env) (images s0) (clone_payloads env s0 url1 limit1)"
    by blast
  from clone_stores_payloads [OF assms(3)]
  have i2: "images s2 = foldl (store_image env) (images s1) (clone_payloads env s1 url2 limit2)"
    by blast
  from i1 i2 have all: "images s2 = foldl (store_image env) (images s0)
                       (clone_payloads env s0 url1 limit1 @ clone_payloads env s1 url2 limit2)"
    by simp
  with assms(1) have dist: "distinct (map fst (images s2))"
    by (simp add: foldl_store_image_distinct del: foldl_append)
  from all assms(4) have "md5_hexdigest env data @ ''.jpg'' \<in> fst ` set (images s2)"
    by (simp only: foldl_store_image_names) blast
  with dist have one: "length (filter (\<lambda>(name, content). name = md5_hexdigest env data @ ''.jpg'')
                         (images s2)) = 1"
    by (rule one_file_per_name)
  from all have le: "length (images s2) \<le> length (images s0)
             + card (set (clone_payloads env s0 url1 limit1 @ clone_payloads env s1 url2 limit2))"
    using length_le_new_payloads [OF assms(1)] by (simp del: foldl_append set_append)
  have idem: "store_image env (store_image env (images s2) data) data
                 = store_image env (images s2) data"
    by (simp add: store_image_def write_file_def update_twice)
  have look: "map_of (store_image env (images s2) data) (md5_hexdigest env data @ ''.jpg'')
                 = Some data"
    by (simp add: store_image_def write_file_def map_of_update_same)
  from all one le idem look show ?thesis by blast
qed

theorem ingestion_content_addressed_witness:
  "clone_payloads example_env example_start (Some ''http://example.com/'') 40
     = [''JPEG-A'', ''JPEG-A'', ''JPEG-B'']
   \<and> length (filter (\<lambda>(name, content). name = ''2107606710dbb9df518a91a253f1a86b.jpg'')
         (images (snd (clone example_env
            (snd (clone example_env example_start (Some ''http://example.com/'') 40))
            (Some ''http://example.com/'') 40)))) = 1"
proof -
  have d: "distinct (map fst (images example_start))"
    by (simp add: example_start_def)
  have p: "clone_payloads example_env example_start (Some ''http://example.com/'') 40
     = [''JPEG-A'', ''JPEG-A'', ''JPEG-B'']"
    by code_simp
  then have m: "''JPEG-A'' \<in> set (clone_payloads example_env example_start (Some ''http://example.com/'') 40
      @ clone_payloads example_env
          (snd (clone example_env example_start (Some ''http://example.com/'') 40))
          (Some ''http://example.com/'') 40)"
    by simp
  have h: "md5_hexdigest example_env ''JPEG-A'' @ ''.jpg'' = ''2107606710dbb9df518a91a253f1a86b.jpg''"
    by (simp add: example_env_def)
  from ingestion_content_addressed [OF d prod.collapse [symmetric] prod.collapse [symmetric] m]
  have "length (filter (\<lambda>(name, content). name = md5_hexdigest example_env ''JPEG-A'' @ ''.jpg'')
         (images (snd (clone example_env
            (snd (clone example_env example_start (Some ''http://example.com/'') 40))
            (Some ''http://example.com/'') 40)))) = 1"
    by blast
  with h p show ?thesis by simp
qed

text \<open>Running the example page twice leaves two files for its three accepted links.\<close>

lemma example_two_runs:
  "images (snd (clone example_env
       (snd (clone example_env example_start (Some ''http://example.com/'') 40))
       (Some ''http://example.com/'') 40))
     = [(''2107606710dbb9df518a91a253f1a86b.jpg'', ''JPEG-A''),
        (''658a05ea05f0c4a36ded093ae0b51376.jpg'', ''JPEG-B'')]"
  by code_simp

subsection \<open>Exceptions of the ingestion\<close>

text \<open>
  When every reference of the page can be joined to the page URL, \<open>clone\<close> returns a
  summary: a failed validation, a failed body fetch and a failed verification are skipped.
  A reference that \<open>urljoin\<close> rejects is not: line 110 stands outside the
  \<open>try\<close>, and the exception ends \<open>clone\<close>.
\<close>

lemma clone_loop_returns:
  assumes "\<forall>src. Some src \<in> set imgs \<and> src \<noteq> [] \<longrightarrow> (\<exists>u. urljoin env url src = Inr u)"
  shows "\<exists>n s'. clone_loop env url limit imgs count s = (Inr n, s')"
  using assms
proof (induction imgs arbitrary: count s)
  case Nil
  show ?case by simp
next
  case (Cons img rest)
  from Cons.prems
  have r: "\<forall>src. Some src \<in> set rest \<and> src \<noteq> [] \<longrightarrow> (\<exists>u. urljoin env url src = Inr u)"
    by simp
  have "clone_loop env url limit (img # rest) count s
          = clone_loop env url limit (img # rest) count s"
    by simp
  from clone_loop_Cons_cases [OF this]
  consider (stop) "clone_loop env url limit (img # rest) count s = (Inr count, s)"
    | (raise) e src where "img = Some src" "src \<noteq> []" "urljoin env url src = Inl e"
    | (skip) w where
        "clone_loop env url limit (img # rest) count s
           = clone_loop env url limit rest count (s\<lparr>world := w\<rparr>)"
    | (store) w d where
        "clone_loop env url limit (img # rest) count s
           = clone_loop env url limit rest (count + 1)
               (s\<lparr>images := store_image env (images s) d, world := w\<rparr>)"
    by blast
  then show ?case
  proof cases
    case stop
    then show ?thesis by blast
  next
    case raise
    with Cons.prems show ?thesis by force
  next
    case skip
    with Cons.IH [OF r] show ?thesis by simp
  next
    case store
    with Cons.IH [OF r] show ?thesis by simp
  qed
qed

lemma clone_returns:
  assumes "requests_get_text env (world s) url = (Inr html, w')"
    and "\<forall>src. Some src \<in> set (find_all_img env html) \<and> src \<noteq> []
            \<longrightarrow> (\<exists>u. urljoin env url src = Inr u)"
  shows "\<exists>summary s'. clone env s url limit = (Inr summary, s')"
proof -
  from clone_loop_returns [OF assms(2)]
  obtain n s' where "clone_loop env url limit (find_all_img env html) 0 (s\<lparr>world := w'\<rparr>) = (Inr n, s')"
    by blast
  with assms(1) show ?thesis by (simp add: clone_def)
qed

lemma clone_raises_when_urljoin_raises:
  assumes "requests_get_text env (world s) url = (Inr html, w')"
    and "find_all_img env html = Some src # rest" and "src \<noteq> []"
    and "urljoin env url src = Inl e" and "0 < limit"
  shows "clone env s url limit = (Inl e, s\<lparr>world := w'\<rparr>)"
  using assms by (simp add: clone_def)

text \<open>
  C4 says that \<open>clone\<close> raises only when the page fetch fails. On the second page of
  the example the fetch succeeds and the second \<open>img\<close> element carries the reference
  \<open>//[\<close>, for which \<open>urljoin\<close> raises \<open>ValueError\<close>: \<open>clone\<close> and
  \<open>execute\<close> end with that exception.
\<close>

theorem clone_raises_on_unjoinable_reference:
  "requests_get_text example_env (world example_start) (Some ''http://example.com/bad'')
     = (Inr ''bad'', 1)
   \<and> fst (clone example_env example_start (Some ''http://example.com/bad'') 40) = Inl ValueError
   \<and> fst (execute example_env example_start ''CLONE'' (Some ''http://example.com/bad''))
       = Inl ValueError"
proof -
  have "requests_get_text example_env (world example_start) (Some ''http://example.com/bad'')
     = (Inr ''bad'', 1)"
    by (simp add: example_env_def example_start_def)
  moreover have "fst (clone example_env example_start (Some ''http://example.com/bad'') 40)
     = Inl ValueError"
    by code_simp
  moreover have "fst (execute example_env example_start ''CLONE'' (Some ''http://example.com/bad''))
       = Inl ValueError"
    by code_simp
  ultimately show ?thesis by simp
qed

subsection \<open>The shape of the log is kept\<close>

text \<open>
  The condition under which \<open>record\<close> appends holds after construction unless the file
  already held a document of another shape, and every invocation keeps it.
\<close>

lemma record_event_Inl_unchanged:
  assumes "record_event env s p a = (Inl e, s')"
  shows "s' = s"
proof (cases "log_shaped (memory s)")
  case True
  obtain t w' where "time_time env (world s) = (t, w')" by (metis surj_pair)
  from record_event_shaped [OF True this, of p a] assms show ?thesis by auto
next
  case False
  from record_event_unshaped [OF False, of env p a] assms show ?thesis by auto
qed

lemma execute_Inl_memory:
  assumes "execute env s cmd payload = (Inl e, s')"
  shows "memory s' = memory s"
proof (cases "cmd = ''CLONE''")
  case True
  obtain r s1 where c: "clone env s payload 40 = (r, s1)" by (metis surj_pair)
  from clone_effect [OF c] have m: "memory s1 = memory s" by blast
  from assms True c m show ?thesis
    by (auto simp: execute_def split: sum.splits prod.splits dest: record_event_Inl_unchanged)
next
  case False
  with assms show ?thesis
    by (auto simp: execute_def split: sum.splits prod.splits if_splits
          dest: record_event_Inl_unchanged)
qed

lemma execute_keeps_log_shaped:
  assumes "log_shaped (memory s)"
  shows "log_shaped (memory (snd (execute env s cmd payload)))"
proof (cases "fst (execute env s cmd payload)")
  case (Inr result)
  then have "execute env s cmd payload = (Inr result, snd (execute env s cmd payload))"
    by (metis prod.collapse)
  from execute_Inr [OF this] show ?thesis by blast
next
  case (Inl e)
  then have "execute env s cmd payload = (Inl e, snd (execute env s cmd payload))"
    by (metis prod.collapse)
  from execute_Inl_memory [OF this] assms show ?thesis by simp
qed

lemma core_init_log_shaped:
  "memory s = Absent \<or> memory s = Garbage \<or> log_shaped (memory s)
     \<Longrightarrow> log_shaped (memory (core_init s))"
  by (auto simp: core_init_def memory_init_def log_shaped_def empty_events_def)

end
